theory Spec2Isabelle
  imports Complex_Main "HOL-Library.Char_ord"
begin

section \<open>The message list of stream-chat-react\<close>

text \<open>
  A shallow embedding of \<^verbatim>\<open>src/components/MessageList.js\<close>: the functions of the
  \<^verbatim>\<open>MessageList\<close> component that build the timeline (\<^verbatim>\<open>insertDates\<close>, the sort of
  \<^verbatim>\<open>render\<close>), annotate it (\<^verbatim>\<open>getReadStates\<close>, \<^verbatim>\<open>getLastReceived\<close>,
  \<^verbatim>\<open>getGroupStyles\<close>), decide on the notification (\<^verbatim>\<open>componentDidUpdate\<close>) and
  resolve mentions (\<^verbatim>\<open>_onMentionsHoverOrClick\<close>).
\<close>

subsection \<open>Data\<close>

text \<open>
  A \<^verbatim>\<open>Date\<close> is its time value: milliseconds since the epoch. Only valid dates are
  modelled (an invalid \<^verbatim>\<open>Date\<close> holds \<^verbatim>\<open>NaN\<close>).
\<close>

type_synonym date = int

record user =
  user_id :: string
  name :: "string option"

text \<open>
  A message as the channel supplies it. A property that may be \<^verbatim>\<open>undefined\<close> is an
  option: \<^verbatim>\<open>id\<close> (read as \<open>message_id\<close>), \<^verbatim>\<open>deleted_at\<close> and \<^verbatim>\<open>status\<close>.
  The property \<^verbatim>\<open>type\<close> is read as \<open>message_type\<close>. The contents of an attachment are
  never inspected, only the length of the array is.
\<close>

record message =
  message_type :: string
  message_id :: "string option"
  created_at :: date
  updated_at :: date
  user :: user
  attachments :: "string list"
  deleted_at :: "date option"
  status :: "string option"

record event =
  event_type :: string
  event_created_at :: date

text \<open>
  The entries of the array that \<^verbatim>\<open>insertDates\<close> returns: a message itself, the object
  \<^verbatim>\<open>{ type: 'message.date', date }\<close>, or the object \<^verbatim>\<open>{ type: 'channel.event', event }\<close>.
\<close>

datatype entry = Msg message | DateMarker date | EventWrapper event

text \<open>The property \<^verbatim>\<open>type\<close> of an entry.\<close>

fun entry_type :: "entry \<Rightarrow> string" where
  "entry_type (Msg m) = message_type m"
| "entry_type (DateMarker d) = ''message.date''"
| "entry_type (EventWrapper e) = ''channel.event''"

text \<open>
  The properties \<^verbatim>\<open>id\<close>, \<^verbatim>\<open>created_at\<close>, \<^verbatim>\<open>updated_at\<close> and \<^verbatim>\<open>status\<close> of an entry:
  the two objects that \<^verbatim>\<open>insertDates\<close> creates have none of them.
\<close>

fun entry_id :: "entry \<Rightarrow> string option" where
  "entry_id (Msg m) = message_id m"
| "entry_id (DateMarker d) = None"
| "entry_id (EventWrapper e) = None"

fun entry_created_at :: "entry \<Rightarrow> date option" where
  "entry_created_at (Msg m) = Some (created_at m)"
| "entry_created_at (DateMarker d) = None"
| "entry_created_at (EventWrapper e) = None"

fun entry_updated_at :: "entry \<Rightarrow> date option" where
  "entry_updated_at (Msg m) = Some (updated_at m)"
| "entry_updated_at (DateMarker d) = None"
| "entry_updated_at (EventWrapper e) = None"

fun entry_status :: "entry \<Rightarrow> string option" where
  "entry_status (Msg m) = status m"
| "entry_status (DateMarker d) = None"
| "entry_status (EventWrapper e) = None"

text \<open>
  \<^verbatim>\<open>this.props.eventHistory\<close> is an object that the component only reads, with
  \<^verbatim>\<open>eventHistory[key]\<close>. The model is that lookup: for each key, the value that the
  object or its prototype chain holds. The values that matter to \<^verbatim>\<open>insertDates\<close> are
  \<^verbatim>\<open>undefined\<close>, an array of events, a function with its property \<^verbatim>\<open>length\<close> (a
  function has no method \<^verbatim>\<open>forEach\<close>), and an object that is not an array and has no
  property \<^verbatim>\<open>length\<close>.
\<close>

datatype history_value = Undefined | Events "event list" | Function nat | Object

type_synonym eventHistory = "string \<Rightarrow> history_value"

text \<open>
  What a plain object inherits from \<^verbatim>\<open>Object.prototype\<close>: the methods, with their
  \<^verbatim>\<open>length\<close>, and the accessor \<^verbatim>\<open>__proto__\<close>, whose value is \<^verbatim>\<open>Object.prototype\<close>
  itself.
\<close>

definition Object_prototype :: "string \<Rightarrow> history_value" where
  "Object_prototype k =
     (if k = ''constructor'' \<or> k = ''hasOwnProperty'' \<or> k = ''isPrototypeOf''
         \<or> k = ''propertyIsEnumerable'' \<or> k = ''__lookupGetter__'' \<or> k = ''__lookupSetter__''
      then Function 1
      else if k = ''__defineGetter__'' \<or> k = ''__defineSetter__'' then Function 2
      else if k = ''toString'' \<or> k = ''valueOf'' \<or> k = ''toLocaleString'' then Function 0
      else if k = ''__proto__'' then Object
      else Undefined)"

text \<open>
  A plain object (an object literal, the result of \<^verbatim>\<open>JSON.parse\<close>) with the given own
  properties, each an array of events: an own property hides an inherited one.
\<close>

definition plain_object :: "(string \<rightharpoonup> event list) \<Rightarrow> eventHistory" where
  "plain_object own_properties k =
     (case own_properties k of Some es \<Rightarrow> Events es | None \<Rightarrow> Object_prototype k)"

text \<open>The exception that the functions below can throw.\<close>

datatype error = TypeError

subsection \<open>Local time\<close>

text \<open>
  \<^verbatim>\<open>Date.prototype.getDay\<close> is \<open>WeekDay (LocalTime t)\<close> in ECMAScript, with
  \<open>LocalTime t = t + LocalTZA t\<close>, \<open>Day t = floor (t / msPerDay)\<close> and
  \<open>WeekDay t = (Day t + 4) mod 7\<close>. The offset of the local time zone is a parameter
  \<open>tza\<close> of the model. \<open>localDay\<close> numbers the calendar days of local time.
\<close>

definition msPerDay :: int where
  "msPerDay = 86400000"

definition localDay :: "(date \<Rightarrow> int) \<Rightarrow> date \<Rightarrow> int" where
  "localDay tza t = (t + tza t) div msPerDay"

definition getDay :: "(date \<Rightarrow> int) \<Rightarrow> date \<Rightarrow> int" where
  "getDay tza t = (localDay tza t + 4) mod 7"

subsection \<open>insertDates\<close>

text \<open>\<^verbatim>\<open>message.id || 'first'\<close>: an absent or empty id is falsy.\<close>

definition id_or_first :: "message \<Rightarrow> string" where
  "id_or_first message =
     (case message_id message of
        None \<Rightarrow> ''first''
      | Some i \<Rightarrow> if i = [] then ''first'' else i)"

text \<open>
  One iteration of the loop \<^verbatim>\<open>for (const [i, message] of messages.entries())\<close>:
  \<open>newMessages\<close> after the iteration for index \<open>i\<close>, or the exception of
  \<^verbatim>\<open>eventsNextToMessage.forEach\<close>. The test
  \<^verbatim>\<open>eventsNextToMessage && eventsNextToMessage.length > 0\<close> holds for an array that is
  not empty and for a function whose \<^verbatim>\<open>length\<close> is positive; for the function, the call
  of \<^verbatim>\<open>forEach\<close> throws a \<^verbatim>\<open>TypeError\<close>.
\<close>

definition insertDates_iteration ::
  "(date \<Rightarrow> int) \<Rightarrow> eventHistory \<Rightarrow> message list \<Rightarrow> entry list \<Rightarrow> nat
     \<Rightarrow> error + entry list" where
  "insertDates_iteration tza eventHistory messages newMessages i =
     (let message = messages ! i in
      if message_type message = ''message.read'' \<or> deleted_at message \<noteq> None
      then Inr (newMessages @ [Msg message])
      else
        let messageDate = getDay tza (created_at message);
            prevMessageDate =
              (if i > 0 then getDay tza (created_at (messages ! (i - 1))) else messageDate);
            pushed =
              (if i = 0
               then newMessages @ [DateMarker (created_at message), Msg message]
               else if messageDate \<noteq> prevMessageDate
               then newMessages @ [DateMarker (created_at message), Msg message]
               else newMessages @ [Msg message])
        in case eventHistory (id_or_first message) of
             Undefined \<Rightarrow> Inr pushed
           | Events eventsNextToMessage \<Rightarrow>
               if length eventsNextToMessage > 0
               then Inr (pushed @ map EventWrapper eventsNextToMessage)
               else Inr pushed
           | Function n \<Rightarrow> if n > 0 then Inl TypeError else Inr pushed
           | Object \<Rightarrow> Inr pushed)"

text \<open>The loop over the indices that are left; an exception ends it.\<close>

fun insertDates_loop ::
  "(date \<Rightarrow> int) \<Rightarrow> eventHistory \<Rightarrow> message list \<Rightarrow> entry list \<Rightarrow> nat list
     \<Rightarrow> error + entry list" where
  "insertDates_loop tza eventHistory messages newMessages [] = Inr newMessages"
| "insertDates_loop tza eventHistory messages newMessages (i # is) =
     (case insertDates_iteration tza eventHistory messages newMessages i of
        Inl e \<Rightarrow> Inl e
      | Inr newMessages' \<Rightarrow> insertDates_loop tza eventHistory messages newMessages' is)"

definition insertDates ::
  "(date \<Rightarrow> int) \<Rightarrow> eventHistory \<Rightarrow> message list \<Rightarrow> error + entry list" where
  "insertDates tza eventHistory messages =
     insertDates_loop tza eventHistory messages [] [0..<length messages]"

text \<open>The messages among the entries of a timeline, in order.\<close>

fun messages_of :: "entry list \<Rightarrow> message list" where
  "messages_of [] = []"
| "messages_of (Msg m # es) = m # messages_of es"
| "messages_of (DateMarker d # es) = messages_of es"
| "messages_of (EventWrapper e # es) = messages_of es"

subsection \<open>The sort of render\<close>

text \<open>
  The comparison function of \<^verbatim>\<open>render\<close> is \<^verbatim>\<open>a.created_at - b.created_at\<close>. A date
  marker and an event wrapper have no property \<^verbatim>\<open>created_at\<close>, and a subtraction with
  \<^verbatim>\<open>undefined\<close> is \<^verbatim>\<open>NaN\<close>, here \<open>None\<close>.
\<close>

definition compare_created_at :: "entry \<Rightarrow> entry \<Rightarrow> int option" where
  "compare_created_at a b =
     (case entry_created_at a of
        None \<Rightarrow> None
      | Some x \<Rightarrow> (case entry_created_at b of None \<Rightarrow> None | Some y \<Rightarrow> Some (x - y)))"

text \<open>\<open>SortCompare\<close> of ECMAScript reads a result \<^verbatim>\<open>NaN\<close> of the comparison function as \<open>+0\<close>.\<close>

definition SortCompare :: "('a \<Rightarrow> 'a \<Rightarrow> int option) \<Rightarrow> 'a \<Rightarrow> 'a \<Rightarrow> int" where
  "SortCompare comparefn x y = (case comparefn x y of None \<Rightarrow> 0 | Some v \<Rightarrow> v)"

text \<open>
  A comparison function, with \<^verbatim>\<open>NaN\<close> read as \<open>+0\<close>, orders the elements of an array
  consistently when equality is reflexive, symmetric and transitive and both strict orders
  are transitive: the conditions of ECMAScript for a consistent comparison function, on
  the values of \<open>SortCompare\<close>.
\<close>

definition consistent_comparefn :: "('a \<Rightarrow> 'a \<Rightarrow> int option) \<Rightarrow> 'a list \<Rightarrow> bool" where
  "consistent_comparefn comparefn xs =
     list_all (\<lambda>a. list_all (\<lambda>b. list_all (\<lambda>c.
         SortCompare comparefn a a = 0
         \<and> (if SortCompare comparefn a b = 0 then SortCompare comparefn b a = 0 else True)
         \<and> (if SortCompare comparefn a b = 0 \<and> SortCompare comparefn b c = 0
            then SortCompare comparefn a c = 0 else True)
         \<and> (if SortCompare comparefn a b < 0 \<and> SortCompare comparefn b c < 0
            then SortCompare comparefn a c < 0 else True)
         \<and> (if SortCompare comparefn a b > 0 \<and> SortCompare comparefn b c > 0
            then SortCompare comparefn a c > 0 else True)) xs) xs) xs"

text \<open>
  \<^verbatim>\<open>Array.prototype.sort\<close>. The engines differ in the algorithm; each one is a stable
  sort by comparison (ECMAScript 2019 asks for stability) that reads a result \<^verbatim>\<open>NaN\<close>
  as equal. Where the comparison function orders the elements consistently, all such sorts
  return the same array: the elements in ascending order, equal ones in their original
  order. The model gives that array, computed by the stable insertion sort (each element
  moves left past the elements that compare greater; \<open>sort_insert\<close> works on the sorted
  prefix in reverse, its last element first). Elsewhere the order depends on the engine,
  and the model gives no result: \<open>None\<close>.
\<close>

fun sort_insert :: "('a \<Rightarrow> 'a \<Rightarrow> int option) \<Rightarrow> 'a \<Rightarrow> 'a list \<Rightarrow> 'a list" where
  "sort_insert comparefn x [] = [x]"
| "sort_insert comparefn x (y # ys) =
     (if SortCompare comparefn y x > 0 then y # sort_insert comparefn x ys else x # y # ys)"

definition Array_sort :: "('a \<Rightarrow> 'a \<Rightarrow> int option) \<Rightarrow> 'a list \<Rightarrow> 'a list option" where
  "Array_sort comparefn xs =
     (if consistent_comparefn comparefn xs
      then Some (rev (foldl (\<lambda>prefix x. sort_insert comparefn x prefix) [] xs))
      else None)"

text \<open>
  \<^verbatim>\<open>allMessages\<close> of \<^verbatim>\<open>render\<close> after \<^verbatim>\<open>insertDates\<close> and the sort: the exception of
  \<^verbatim>\<open>insertDates\<close>, or the sorted array where it does not depend on the engine.
\<close>

definition render_allMessages ::
  "(date \<Rightarrow> int) \<Rightarrow> eventHistory \<Rightarrow> message list \<Rightarrow> error + entry list option" where
  "render_allMessages tza eventHistory messages =
     (case insertDates tza eventHistory messages of
        Inl e \<Rightarrow> Inl e
      | Inr allMessages \<Rightarrow> Inr (Array_sort compare_created_at allMessages))"

text \<open>
  The timestamp the specification sorts an entry by: \<^verbatim>\<open>created_at\<close> of a message,
  \<^verbatim>\<open>date\<close> of a date marker, \<^verbatim>\<open>event.created_at\<close> of an event wrapper.
\<close>

fun effective_timestamp :: "entry \<Rightarrow> date" where
  "effective_timestamp (Msg m) = created_at m"
| "effective_timestamp (DateMarker d) = d"
| "effective_timestamp (EventWrapper e) = event_created_at e"

subsection \<open>getReadStates\<close>

text \<open>
  A value of \<^verbatim>\<open>this.props.read\<close>; \<^verbatim>\<open>Object.values\<close> lists the values in the order of
  the object's keys, so \<^verbatim>\<open>read\<close> is a list. The property \<^verbatim>\<open>user\<close> is read as
  \<open>read_user\<close>; \<^verbatim>\<open>last_read == null\<close> holds for \<^verbatim>\<open>null\<close> and \<^verbatim>\<open>undefined\<close>, both
  \<open>None\<close>.
\<close>

record readState =
  last_read :: "date option"
  read_user :: user

text \<open>
  The key of \<^verbatim>\<open>obj[id]\<close>: property keys are strings, and \<^verbatim>\<open>undefined\<close> as a key is the
  string \<^verbatim>\<open>'undefined'\<close>.
\<close>

definition property_key :: "string option \<Rightarrow> string" where
  "property_key i = (case i of None \<Rightarrow> ''undefined'' | Some s \<Rightarrow> s)"

text \<open>
  An object that starts as the literal \<^verbatim>\<open>{}\<close> and is written only by
  \<^verbatim>\<open>obj[key] = array\<close>. The assignment creates or overwrites an own property, for every
  key but \<^verbatim>\<open>'__proto__'\<close>: that key is the accessor of \<^verbatim>\<open>Object.prototype\<close>, and the
  assignment makes the array the prototype of the object and creates no own property.
  \<open>own\<close> are the own properties, the keys that \<^verbatim>\<open>Object.keys\<close> lists; \<open>proto\<close> is the
  array that has been made the prototype, if any.
\<close>

record 'v js_object =
  own :: "string \<rightharpoonup> 'v"
  proto :: "'v option"

definition empty_object :: "'v js_object" where
  "empty_object = \<lparr>own = Map.empty, proto = None\<rparr>"

definition obj_set :: "'v js_object \<Rightarrow> string \<Rightarrow> 'v \<Rightarrow> 'v js_object" where
  "obj_set obj k v =
     (if k = ''__proto__'' then obj\<lparr>proto := Some v\<rparr> else obj\<lparr>own := (own obj)(k \<mapsto> v)\<rparr>)"

text \<open>
  \<^verbatim>\<open>obj[key]\<close>: the array that has been stored under the key, which for \<^verbatim>\<open>'__proto__'\<close>
  is the prototype. \<open>None\<close> where none has been stored: the value is then
  \<^verbatim>\<open>undefined\<close> or an inherited property, neither of them iterable.
\<close>

definition obj_get :: "'v js_object \<Rightarrow> string \<Rightarrow> 'v option" where
  "obj_get obj k = (if k = ''__proto__'' then proto obj else own obj k)"

text \<open>The keys under which an array has been stored.\<close>

definition stored_keys :: "'v js_object \<Rightarrow> string set" where
  "stored_keys obj = {k. obj_get obj k \<noteq> None}"

type_synonym readData = "user list js_object"

text \<open>The first loop: \<^verbatim>\<open>readData[message.id] = []\<close> for every entry of the array.\<close>

definition readData_init :: "entry list \<Rightarrow> readData" where
  "readData_init messages =
     foldl (\<lambda>readData message. obj_set readData (property_key (entry_id message)) [])
       empty_object messages"

text \<open>\<^verbatim>\<open>msg.updated_at < readState.last_read\<close>: false where \<^verbatim>\<open>updated_at\<close> is \<^verbatim>\<open>undefined\<close>.\<close>

definition updated_before :: "entry \<Rightarrow> date \<Rightarrow> bool" where
  "updated_before msg lastRead =
     (case entry_updated_at msg of None \<Rightarrow> False | Some u \<Rightarrow> u < lastRead)"

text \<open>The inner loop: the variable \<^verbatim>\<open>userLastReadMsgId\<close> after the scan of the array.\<close>

definition userLastReadMsgId :: "entry list \<Rightarrow> date \<Rightarrow> string option" where
  "userLastReadMsgId messages lastRead =
     foldl (\<lambda>found msg. if updated_before msg lastRead then entry_id msg else found) None messages"

text \<open>
  The loop over the read states, from the state it has reached. \<^verbatim>\<open>break\<close> returns the
  index as it is. The spread \<^verbatim>\<open>...readData[userLastReadMsgId]\<close> of a value that is not
  iterable would throw a \<^verbatim>\<open>TypeError\<close>: the result \<open>None\<close>.
\<close>

fun getReadStates_loop :: "entry list \<Rightarrow> readState list \<Rightarrow> readData \<Rightarrow> readData option" where
  "getReadStates_loop messages [] readData = Some readData"
| "getReadStates_loop messages (readState # rest) readData =
     (case last_read readState of
        None \<Rightarrow> Some readData
      | Some lastRead \<Rightarrow>
          (case userLastReadMsgId messages lastRead of
             None \<Rightarrow> getReadStates_loop messages rest readData
           | Some i \<Rightarrow>
               (case obj_get readData i of
                  None \<Rightarrow> None
                | Some readBy \<Rightarrow>
                    getReadStates_loop messages rest
                      (obj_set readData i (readBy @ [read_user readState])))))"

definition getReadStates :: "readState list \<Rightarrow> entry list \<Rightarrow> readData option" where
  "getReadStates read messages = getReadStates_loop messages read (readData_init messages)"

text \<open>\<^verbatim>\<open>readData[message.id] || []\<close>, as \<^verbatim>\<open>render\<close> reads the index for a message.\<close>

definition readBy :: "readData \<Rightarrow> message \<Rightarrow> user list" where
  "readBy readData message =
     (case obj_get readData (property_key (message_id message)) of
        None \<Rightarrow> []
      | Some us \<Rightarrow> us)"

text \<open>
  The specification's words for one read state: the last message of the sequence whose
  \<^verbatim>\<open>updatedAt\<close> is strictly before the \<^verbatim>\<open>lastRead\<close> timestamp, and the index after the
  user has been appended to the read-by list of that message's id.
\<close>

definition last_message_before :: "entry list \<Rightarrow> date \<Rightarrow> message option" where
  "last_message_before messages lastRead =
     (let before = filter (\<lambda>m. updated_at m < lastRead) (messages_of messages)
      in if before = [] then None else Some (last before))"

definition append_reader :: "entry list \<Rightarrow> readData \<Rightarrow> readState \<Rightarrow> readData" where
  "append_reader messages readData readState =
     (case last_read readState of
        None \<Rightarrow> readData
      | Some lastRead \<Rightarrow>
          (case last_message_before messages lastRead of
             None \<Rightarrow> readData
           | Some m \<Rightarrow>
               (case message_id m of
                  None \<Rightarrow> readData
                | Some i \<Rightarrow>
                    obj_set readData i
                      ((case obj_get readData i of None \<Rightarrow> [] | Some us \<Rightarrow> us)
                       @ [read_user readState]))))"

text \<open>The ids of the Message entries of a timeline.\<close>

definition timeline_message_ids :: "entry list \<Rightarrow> string list" where
  "timeline_message_ids timeline = List.map_filter message_id (messages_of timeline)"

subsection \<open>getLastReceived\<close>

text \<open>
  The result: \<^verbatim>\<open>null\<close>, or the property \<^verbatim>\<open>id\<close> of the entry found (which may be
  \<^verbatim>\<open>undefined\<close>).
\<close>

datatype lastReceivedId = Null | Id "string option"

text \<open>
  The loop \<^verbatim>\<open>for (let i = l; i > 0; i--)\<close> from the index it has reached.
  \<^verbatim>\<open>messages[i] !== undefined\<close> holds for the indices below the length.
\<close>

primrec getLastReceived_from :: "entry list \<Rightarrow> nat \<Rightarrow> lastReceivedId" where
  "getLastReceived_from messages 0 = Null"
| "getLastReceived_from messages (Suc n) =
     (if Suc n < length messages
         \<and> entry_status (messages ! Suc n) \<noteq> None
         \<and> entry_status (messages ! Suc n) = Some ''received''
      then Id (entry_id (messages ! Suc n))
      else getLastReceived_from messages n)"

definition getLastReceived :: "entry list \<Rightarrow> lastReceivedId" where
  "getLastReceived messages = getLastReceived_from messages (length messages)"

text \<open>
  The specification's words: the last entry among the positions \<open>1\<close> to \<open>length - 1\<close>
  whose status is \<^verbatim>\<open>'received'\<close>.
\<close>

definition last_received :: "entry list \<Rightarrow> lastReceivedId" where
  "last_received es =
     (let received = filter (\<lambda>e. entry_status e = Some ''received'') es
      in if received = [] then Null else Id (entry_id (last received)))"

definition last_received_after_first :: "entry list \<Rightarrow> lastReceivedId" where
  "last_received_after_first messages = last_received (tl messages)"

subsection \<open>getGroupStyles\<close>

text \<open>\<^verbatim>\<open>messages[i]\<close> for an index that may be out of range, where it is \<^verbatim>\<open>undefined\<close>.\<close>

definition array_get :: "'a list \<Rightarrow> int \<Rightarrow> 'a option" where
  "array_get xs i = (if 0 \<le> i \<and> i < int (length xs) then Some (xs ! nat i) else None)"

text \<open>
  The two conditions of the loop body. The operator \<^verbatim>\<open>||\<close> stops at the first operand
  that holds, so the properties \<^verbatim>\<open>attachments\<close> and \<^verbatim>\<open>user\<close> are read on messages
  only: a date marker and an event wrapper carry a tag that an earlier operand tests, and
  the last case of the inner distinction is never reached.
\<close>

definition isTopMessage :: "string \<Rightarrow> entry option \<Rightarrow> bool" where
  "isTopMessage userId previousMessage =
     (case previousMessage of
        None \<Rightarrow> True
      | Some p \<Rightarrow>
          entry_type p = ''message.date'' \<or> entry_type p = ''system''
          \<or> entry_type p = ''channel.event''
          \<or> (case p of
                Msg pm \<Rightarrow>
                  length (attachments pm) \<noteq> 0 \<or> userId \<noteq> user_id (user pm)
                  \<or> message_type pm = ''error'' \<or> deleted_at pm \<noteq> None
              | _ \<Rightarrow> True))"

definition isBottomMessage :: "string \<Rightarrow> entry option \<Rightarrow> bool" where
  "isBottomMessage userId nextMessage =
     (case nextMessage of
        None \<Rightarrow> True
      | Some n \<Rightarrow>
          entry_type n = ''message.date'' \<or> entry_type n = ''system''
          \<or> entry_type n = ''channel.event''
          \<or> (case n of
                Msg nm \<Rightarrow>
                  length (attachments nm) \<noteq> 0 \<or> userId \<noteq> user_id (user nm)
                  \<or> message_type nm = ''error'' \<or> deleted_at nm \<noteq> None
              | _ \<Rightarrow> True))"

text \<open>
  The body of the loop for index \<open>i\<close>: \<open>None\<close> where the iteration ends at a
  \<^verbatim>\<open>continue\<close>, and otherwise the array \<^verbatim>\<open>groupStyles\<close> that the iteration stores under
  \<^verbatim>\<open>message.id\<close>. An entry that passes the two tests of the tag is a message.
\<close>

definition groupStyles_at :: "bool \<Rightarrow> entry list \<Rightarrow> nat \<Rightarrow> string list option" where
  "groupStyles_at noGroupByUser messages i =
     (let previousMessage = array_get messages (int i - 1);
          message = messages ! i;
          nextMessage = array_get messages (int i + 1);
          groupStyles = []
      in if entry_type message = ''message.date'' then None
         else if entry_type message = ''channel.event'' then None
         else
           (case message of
              Msg msg \<Rightarrow>
                let userId = user_id (user msg);
                    isTop = isTopMessage userId previousMessage;
                    isBottom = isBottomMessage userId nextMessage;
                    deletedOrError = (deleted_at msg \<noteq> None \<or> message_type msg = ''error'');
                    groupStyles = (if isTop then groupStyles @ [''top''] else groupStyles);
                    groupStyles =
                      (if isBottom
                       then (if isTop \<or> deletedOrError then [''single'']
                             else groupStyles @ [''bottom''])
                       else groupStyles);
                    groupStyles =
                      (if \<not> isTop \<and> \<not> isBottom
                       then (if deletedOrError then [''single''] else [''middle''])
                       else groupStyles);
                    groupStyles =
                      (if length (attachments msg) \<noteq> 0 then [''single''] else groupStyles);
                    groupStyles = (if noGroupByUser then [''single''] else groupStyles)
                in Some groupStyles
            | _ \<Rightarrow> None))"

definition getGroupStyles :: "bool \<Rightarrow> entry list \<Rightarrow> string list js_object" where
  "getGroupStyles noGroupByUser m =
     foldl (\<lambda>messageGroupStyles i.
              case groupStyles_at noGroupByUser m i of
                None \<Rightarrow> messageGroupStyles
              | Some groupStyles \<Rightarrow>
                  obj_set messageGroupStyles (property_key (entry_id (m ! i))) groupStyles)
       empty_object [0..<length m]"

text \<open>
  \<^verbatim>\<open>messageGroupStyles[message.id]\<close>, as \<^verbatim>\<open>render\<close> reads the styles of a message.
\<close>

definition groupStyles_of :: "string list js_object \<Rightarrow> message \<Rightarrow> string list option" where
  "groupStyles_of messageGroupStyles message =
     obj_get messageGroupStyles (property_key (message_id message))"

text \<open>
  A message that can be grouped with its neighbours: it has no attachments, it is not
  soft-deleted, and its type is neither \<^verbatim>\<open>system\<close> nor \<^verbatim>\<open>error\<close>, nor one of the
  two tags that \<^verbatim>\<open>insertDates\<close> gives to date markers and event wrappers.
\<close>

definition groupable :: "message \<Rightarrow> bool" where
  "groupable message =
     (attachments message = [] \<and> deleted_at message = None
      \<and> message_type message \<notin> {''message.date'', ''channel.event'', ''system'', ''error''})"

text \<open>
  Whether the entry beside a message continues its group: it is a message that can be
  grouped, of the same user. The entry is \<open>None\<close> beyond the ends of the timeline.
\<close>

fun continues_group :: "string \<Rightarrow> entry option \<Rightarrow> bool" where
  "continues_group userId (Some (Msg m)) = (groupable m \<and> user_id (user m) = userId)"
| "continues_group userId (Some (DateMarker d)) = False"
| "continues_group userId (Some (EventWrapper e)) = False"
| "continues_group userId None = False"

text \<open>
  The entries before and after the position \<open>i\<close> of a timeline, and whether no message
  after the position \<open>i\<close> has the id of the entry at \<open>i\<close> (an absent id counts as the id
  \<^verbatim>\<open>'undefined'\<close>).
\<close>

definition entry_before :: "entry list \<Rightarrow> nat \<Rightarrow> entry option" where
  "entry_before es i = (if i = 0 then None else Some (es ! (i - 1)))"

definition entry_after :: "entry list \<Rightarrow> nat \<Rightarrow> entry option" where
  "entry_after es i = (if i + 1 < length es then Some (es ! (i + 1)) else None)"

definition id_not_reused :: "entry list \<Rightarrow> nat \<Rightarrow> bool" where
  "id_not_reused es i =
     (property_key (entry_id (es ! i))
        \<notin> set (map (\<lambda>m. property_key (message_id m)) (messages_of (drop (Suc i) es))))"

subsection \<open>componentDidUpdate\<close>

text \<open>The state of the component.\<close>

record state =
  newMessagesNotification :: bool
  editing :: string
  online :: bool

text \<open>
  \<^verbatim>\<open>userScrolledUp\<close>: \<^verbatim>\<open>this.scrollOffset > 310\<close>. The offset is \<^verbatim>\<open>undefined\<close> until
  \<^verbatim>\<open>listenToScroll\<close> has been called, and the comparison is false then.
\<close>

definition userScrolledUp :: "real option \<Rightarrow> bool" where
  "userScrolledUp scrollOffset = (case scrollOffset of None \<Rightarrow> False | Some offset \<Rightarrow> offset > 310)"

text \<open>
  The part of \<^verbatim>\<open>componentDidUpdate\<close> after the comment
  \<^verbatim>\<open>handle new messages being sent/received\<close>, for \<^verbatim>\<open>this.props.client.userID\<close>,
  \<^verbatim>\<open>this.scrollOffset\<close>, \<^verbatim>\<open>prevProps.messages\<close>, \<^verbatim>\<open>this.props.messages\<close> and
  \<^verbatim>\<open>this.state\<close>. The result is whether \<^verbatim>\<open>this.scrollToBottom()\<close> is called, and the
  state after the calls of \<^verbatim>\<open>setState\<close>. (The part before it restores the scroll position
  from the snapshot and neither calls \<^verbatim>\<open>scrollToBottom\<close> nor sets the state.)
\<close>

definition componentDidUpdate ::
  "string \<Rightarrow> real option \<Rightarrow> message list \<Rightarrow> message list \<Rightarrow> state \<Rightarrow> bool \<times> state" where
  "componentDidUpdate userID scrollOffset prevMessages messages st =
     (case array_get messages (int (length messages) - 1) of
        None \<Rightarrow> (False, st)
      | Some currentLastMessage \<Rightarrow>
          (case array_get prevMessages (int (length prevMessages) - 1) of
             None \<Rightarrow> (False, st)
           | Some previousLastMessage \<Rightarrow>
               let hasNewMessage = (message_id currentLastMessage \<noteq> message_id previousLastMessage);
                   scrolledUp = userScrolledUp scrollOffset;
                   isOwner = (user_id (user currentLastMessage) = userID);
                   scrollToBottom =
                     (if hasNewMessage \<and> isOwner then True
                      else if hasNewMessage \<and> \<not> scrolledUp then True
                      else False);
                   st1 =
                     (if \<not> scrollToBottom \<and> hasNewMessage \<and> \<not> newMessagesNotification st
                      then st\<lparr>newMessagesNotification := True\<rparr>
                      else st);
                   st2 =
                     (if scrollToBottom \<and> newMessagesNotification st
                      then st1\<lparr>newMessagesNotification := False\<rparr>
                      else st1)
               in (scrollToBottom, st2)))"

subsection \<open>_onMentionsHoverOrClick\<close>

text \<open>
  What the handler reads of the DOM event: \<^verbatim>\<open>e.target.tagName\<close>,
  \<^verbatim>\<open>e.target.innerHTML\<close> and \<^verbatim>\<open>e.type\<close>.
\<close>

record dom_event =
  tagName :: string
  innerHTML :: string
  dom_event_type :: string

text \<open>The two callbacks of the props, and a call: the callback with its argument \<^verbatim>\<open>user\<close>.\<close>

datatype callback = onMentionsHover | onMentionsClick

type_synonym call = "callback \<times> user option"

text \<open>
  \<^verbatim>\<open>toLowerCase\<close>, on the letters of ASCII (a tag name has no others): the lower-case
  letter is the upper-case letter with the bit of value 32 set.
\<close>

fun toLowerCase_char :: "char \<Rightarrow> char" where
  "toLowerCase_char (Char b0 b1 b2 b3 b4 b5 b6 b7) =
     (if CHR ''A'' \<le> Char b0 b1 b2 b3 b4 b5 b6 b7 \<and> Char b0 b1 b2 b3 b4 b5 b6 b7 \<le> CHR ''Z''
      then Char b0 b1 b2 b3 b4 True b6 b7
      else Char b0 b1 b2 b3 b4 b5 b6 b7)"

definition toLowerCase :: "string \<Rightarrow> string" where
  "toLowerCase s = map toLowerCase_char s"

text \<open>
  \<^verbatim>\<open>s.replace(c, '')\<close> for a pattern of one character: the first occurrence is removed.
\<close>

fun replace_first :: "char \<Rightarrow> string \<Rightarrow> string" where
  "replace_first c [] = []"
| "replace_first c (x # xs) = (if x = c then xs else x # replace_first c xs)"

text \<open>
  The handler, for whether the props hold \<^verbatim>\<open>onMentionsHover\<close> and \<^verbatim>\<open>onMentionsClick\<close>:
  the calls it makes, in order.
\<close>

definition onMentionsHoverOrClick :: "bool \<Rightarrow> bool \<Rightarrow> dom_event \<Rightarrow> user list \<Rightarrow> call list" where
  "onMentionsHoverOrClick hasOnMentionsHover hasOnMentionsClick e mentioned_users =
     (if \<not> hasOnMentionsHover \<or> \<not> hasOnMentionsClick then []
      else
        let tag = toLowerCase (tagName e);
            textContent = replace_first (CHR ''*'') (innerHTML e)
        in if tag = ''strong'' \<and> (case textContent of [] \<Rightarrow> False | c # cs \<Rightarrow> c = CHR ''@'')
           then
             let userName = replace_first (CHR ''@'') textContent;
                 found = find (\<lambda>u. name u = Some userName \<or> user_id u = userName) mentioned_users;
                 calls = [];
                 calls =
                   (if hasOnMentionsHover \<and> dom_event_type e = ''mouseover''
                    then calls @ [(onMentionsHover, found)] else calls);
                 calls =
                   (if hasOnMentionsClick \<and> dom_event_type e = ''click''
                    then calls @ [(onMentionsHover, found)] else calls)
             in calls
           else [])"

text \<open>
  The name that a mention names: the text of the target without its first \<^verbatim>\<open>*\<close> and
  its first \<^verbatim>\<open>@\<close>; the user of that name or id in the list, if there is one; and
  whether the target is a mention at all.
\<close>

definition mention_name :: "dom_event \<Rightarrow> string" where
  "mention_name e = replace_first (CHR ''@'') (replace_first (CHR ''*'') (innerHTML e))"

definition mentioned_user :: "dom_event \<Rightarrow> user list \<Rightarrow> user option" where
  "mentioned_user e mentioned_users =
     find (\<lambda>u. name u = Some (mention_name e) \<or> user_id u = mention_name e) mentioned_users"

definition is_mention :: "dom_event \<Rightarrow> bool" where
  "is_mention e =
     (toLowerCase (tagName e) = ''strong''
      \<and> (case replace_first (CHR ''*'') (innerHTML e) of [] \<Rightarrow> False | c # cs \<Rightarrow> c = CHR ''@''))"

subsection \<open>Observations on a timeline\<close>









subsection \<open>Sample inputs\<close>

text \<open>The time zone UTC, two users, and a regular message without attachments.\<close>

definition utc :: "date \<Rightarrow> int" where
  "utc t = 0"

definition alice :: user where
  "alice = \<lparr>user_id = ''alice'', name = Some ''Alice''\<rparr>"

definition bob :: user where
  "bob = \<lparr>user_id = ''bob'', name = Some ''Bob''\<rparr>"

definition regular_message :: "string option \<Rightarrow> date \<Rightarrow> user \<Rightarrow> message" where
  "regular_message i t u =
     \<lparr>message_type = ''regular'', message_id = i, created_at = t, updated_at = t, user = u,
      attachments = [], deleted_at = None, status = None\<rparr>"


definition received_message :: message where
  "received_message = (regular_message (Some ''r'') 100 alice)\<lparr>status := Some ''received''\<rparr>"

text \<open>
  A pending message, which has no id yet; an event that is older than it; a read state of
  \<^verbatim>\<open>bob\<close>.
\<close>

definition pending_message :: message where
  "pending_message = regular_message None 100 alice"

definition early_event :: event where
  "early_event = \<lparr>event_type = ''member.added'', event_created_at = 50\<rparr>"

definition bob_read :: readState where
  "bob_read = \<lparr>last_read = Some 500, read_user = bob\<rparr>"

definition alice_read :: readState where
  "alice_read = \<lparr>last_read = Some 500, read_user = alice\<rparr>"

definition null_read :: readState where
  "null_read = \<lparr>last_read = None, read_user = alice\<rparr>"

text \<open>Four consecutive messages of \<^verbatim>\<open>alice\<close>, and a message of \<^verbatim>\<open>bob\<close> with an attachment.\<close>

definition four_messages :: "entry list" where
  "four_messages =
     [Msg (regular_message (Some ''a'') 100 alice), Msg (regular_message (Some ''b'') 200 alice),
      Msg (regular_message (Some ''c'') 300 alice), Msg (regular_message (Some ''d'') 400 alice)]"

definition attachment_message :: message where
  "attachment_message = (regular_message (Some ''e'') 500 bob)\<lparr>attachments := [''image'']\<rparr>"


definition proto_message :: message where
  "proto_message = regular_message (Some ''__proto__'') 100 alice"

definition three_pending :: "entry list" where
  "three_pending =
     [Msg (regular_message None 100 alice), Msg (regular_message None 200 alice),
      Msg (regular_message None 300 alice)]"

text \<open>A hover and a click on a mention of a user that no list below holds.\<close>

definition hover_carol :: dom_event where
  "hover_carol = \<lparr>tagName = ''STRONG'', innerHTML = ''@carol'', dom_event_type = ''mouseover''\<rparr>"

definition click_carol :: dom_event where
  "click_carol = \<lparr>tagName = ''STRONG'', innerHTML = ''@carol'', dom_event_type = ''click''\<rparr>"

definition idle_state :: state where
  "idle_state = \<lparr>newMessagesNotification = False, editing = [], online = True\<rparr>"


section \<open>Properties\<close>

subsection \<open>The shape of the timeline\<close>

lemma messages_of_append: "messages_of (xs @ ys) = messages_of xs @ messages_of ys"
  by (induction xs rule: messages_of.induct) simp_all













subsection \<open>Date markers\<close>












text \<open>
  \<^verbatim>\<open>getDay\<close> is the day of the week: two messages that are a week apart have no date
  marker between them.
\<close>

lemma insertDates_week_apart:
  "insertDates utc (plain_object Map.empty)
     [regular_message (Some ''a'') 0 alice, regular_message (Some ''b'') (7 * msPerDay) alice]
   = Inr [DateMarker 0, Msg (regular_message (Some ''a'') 0 alice),
      Msg (regular_message (Some ''b'') (7 * msPerDay) alice)]"
  by (simp add: insertDates_def insertDates_iteration_def regular_message_def
      plain_object_def Object_prototype_def
      getDay_def localDay_def msPerDay_def utc_def id_or_first_def)

subsection \<open>The order of the timeline\<close>

text \<open>
  Where all elements compare equal, the comparison function orders them consistently and
  the sort returns the array as it is.
\<close>

lemma foldl_sort_insert_equal:
  "(\<forall>x \<in> set (rev prefix @ xs). \<forall>y \<in> set (rev prefix @ xs). SortCompare comparefn x y = 0)
   \<Longrightarrow> foldl (\<lambda>prefix x. sort_insert comparefn x prefix) prefix xs = rev xs @ prefix"
proof (induction xs arbitrary: prefix)
  case Nil
  show ?case by simp
next
  case (Cons x xs)
  have step: "sort_insert comparefn x prefix = x # prefix"
  proof (cases prefix)
    case Nil
    then show ?thesis by simp
  next
    case (Cons y ys)
    with Cons.prems have "SortCompare comparefn y x = 0" by simp
    with Cons show ?thesis by simp
  qed
  have "foldl (\<lambda>prefix x. sort_insert comparefn x prefix) (x # prefix) xs = rev xs @ x # prefix"
    using Cons.prems by (intro Cons.IH) auto
  with step show ?case by simp
qed

lemma Array_sort_equal:
  assumes "\<forall>x \<in> set xs. \<forall>y \<in> set xs. SortCompare comparefn x y = 0"
  shows "Array_sort comparefn xs = Some xs"
proof -
  have "consistent_comparefn comparefn xs"
    using assms by (simp add: consistent_comparefn_def list_all_iff)
  moreover have "foldl (\<lambda>prefix x. sort_insert comparefn x prefix) [] xs = rev xs"
    using foldl_sort_insert_equal [of "[]" xs comparefn] assms by simp
  ultimately show ?thesis by (simp add: Array_sort_def)
qed

text \<open>
  C2, evaluated on the code. The claim is that the entries handed to the renderer are sorted
  ascending by effective timestamp. The comparison function of \<^verbatim>\<open>render\<close> reads
  \<^verbatim>\<open>created_at\<close>, which a date marker and an event wrapper do not have: every comparison
  with one of them is \<^verbatim>\<open>NaN\<close>, that is equal. For a pending message created at 100
  and an event of the bucket \<^verbatim>\<open>'first'\<close> created at 50, all entries compare equal, the
  sort keeps the order of \<^verbatim>\<open>insertDates\<close>, and the effective timestamps of the timeline
  are 100, 100, 50.
\<close>

theorem render_allMessages_not_sorted:
  "render_allMessages utc (plain_object [''first'' \<mapsto> [early_event]]) [pending_message]
     = Inr (Some [DateMarker 100, Msg pending_message, EventWrapper early_event])
   \<and> map effective_timestamp [DateMarker 100, Msg pending_message, EventWrapper early_event]
     = [100, 100, 50]
   \<and> \<not> sorted (map effective_timestamp
        [DateMarker 100, Msg pending_message, EventWrapper early_event])"
proof -
  have ins: "insertDates utc (plain_object [''first'' \<mapsto> [early_event]]) [pending_message]
             = Inr [DateMarker 100, Msg pending_message, EventWrapper early_event]"
    by (simp add: insertDates_def insertDates_iteration_def pending_message_def
        regular_message_def id_or_first_def plain_object_def)
  have "Array_sort compare_created_at [DateMarker 100, Msg pending_message, EventWrapper early_event]
        = Some [DateMarker 100, Msg pending_message, EventWrapper early_event]"
    by (rule Array_sort_equal) (simp add: SortCompare_def compare_created_at_def)
  with ins have "render_allMessages utc (plain_object [''first'' \<mapsto> [early_event]])
       [pending_message]
     = Inr (Some [DateMarker 100, Msg pending_message, EventWrapper early_event])"
    by (simp add: render_allMessages_def)
  then show ?thesis
    by (simp add: pending_message_def regular_message_def early_event_def)
qed

subsection \<open>The read index\<close>

text \<open>Reading and writing the objects that start as \<^verbatim>\<open>{}\<close>.\<close>

lemma obj_get_set:
  "obj_get (obj_set obj k v) k' = (if k' = k then Some v else obj_get obj k')"
  by (simp add: obj_get_def obj_set_def)

lemma own_obj_set:
  "own (obj_set obj k v) = (if k = ''__proto__'' then own obj else (own obj)(k \<mapsto> v))"
  by (simp add: obj_set_def)

text \<open>
  The scan of \<^verbatim>\<open>getReadStates\<close> finds the id of the last message that was updated before
  the read pointer, and the first loop has stored a list under that id.
\<close>

lemma userLastReadMsgId_snoc:
  "userLastReadMsgId (es @ [e]) lastRead =
     (if updated_before e lastRead then entry_id e else userLastReadMsgId es lastRead)"
  by (simp add: userLastReadMsgId_def)

lemma last_message_before_snoc:
  "last_message_before (es @ [e]) lastRead =
     (case e of
        Msg m \<Rightarrow> if updated_at m < lastRead then Some m else last_message_before es lastRead
      | _ \<Rightarrow> last_message_before es lastRead)"
  by (cases e) (simp_all add: last_message_before_def messages_of_append)

lemma userLastReadMsgId_last_message:
  "userLastReadMsgId es lastRead =
     (case last_message_before es lastRead of None \<Rightarrow> None | Some m \<Rightarrow> message_id m)"
proof (induction es rule: rev_induct)
  case Nil
  show ?case by (simp add: userLastReadMsgId_def last_message_before_def)
next
  case (snoc e es)
  show ?case
    unfolding userLastReadMsgId_snoc last_message_before_snoc
    using snoc.IH by (cases e) (simp_all add: updated_before_def)
qed

lemma messages_of_set: "m \<in> set (messages_of es) \<longleftrightarrow> Msg m \<in> set es"
  by (induction es rule: messages_of.induct) auto

lemma last_message_before_in_timeline:
  "last_message_before es lastRead = Some m \<Longrightarrow> Msg m \<in> set es"
proof -
  assume a: "last_message_before es lastRead = Some m"
  let ?before = "filter (\<lambda>m. updated_at m < lastRead) (messages_of es)"
  from a have "?before \<noteq> []" and "m = last ?before"
    by (auto simp: last_message_before_def Let_def split: if_splits)
  then have "m \<in> set ?before" using last_in_set by blast
  then have "m \<in> set (messages_of es)" by simp
  then show ?thesis by (simp only: messages_of_set)
qed

lemma stored_keys_obj_set: "stored_keys (obj_set obj k v) = insert k (stored_keys obj)"
  by (auto simp: stored_keys_def obj_get_set)

lemma stored_keys_empty: "stored_keys empty_object = {}"
  by (simp add: stored_keys_def obj_get_def empty_object_def)

lemma stored_keys_foldl_init:
  "stored_keys (foldl (\<lambda>readData message. obj_set readData (property_key (entry_id message)) [])
              rd es)
     = stored_keys rd \<union> (\<lambda>e. property_key (entry_id e)) ` set es"
  by (induction es arbitrary: rd) (auto simp: stored_keys_obj_set)

lemma stored_keys_readData_init:
  "stored_keys (readData_init es) = (\<lambda>e. property_key (entry_id e)) ` set es"
  by (simp add: readData_init_def stored_keys_foldl_init stored_keys_empty)

lemma stored_keys_get: "k \<in> stored_keys obj \<Longrightarrow> \<exists>v. obj_get obj k = Some v"
  by (simp add: stored_keys_def)

lemma userLastReadMsgId_is_key:
  assumes "userLastReadMsgId es lastRead = Some i"
  shows "i \<in> (\<lambda>e. property_key (entry_id e)) ` set es"
proof -
  from assms obtain m where m: "last_message_before es lastRead = Some m" "message_id m = Some i"
    by (auto simp: userLastReadMsgId_last_message split: option.splits)
  then have "Msg m \<in> set es" by (simp add: last_message_before_in_timeline)
  moreover have "property_key (entry_id (Msg m)) = i" using m by (simp add: property_key_def)
  ultimately show ?thesis by force
qed

lemma append_reader_found:
  "last_read r = Some lastRead \<Longrightarrow> userLastReadMsgId es lastRead = Some i
   \<Longrightarrow> obj_get rd i = Some us
   \<Longrightarrow> append_reader es rd r = obj_set rd i (us @ [read_user r])"
  by (auto simp: append_reader_def userLastReadMsgId_last_message split: option.splits)

lemma append_reader_not_found:
  "last_read r = Some lastRead \<Longrightarrow> userLastReadMsgId es lastRead = None
   \<Longrightarrow> append_reader es rd r = rd"
  by (auto simp: append_reader_def userLastReadMsgId_last_message split: option.splits)

lemma append_reader_cases:
  assumes "(\<lambda>e. property_key (entry_id e)) ` set es \<subseteq> stored_keys rd"
  shows "append_reader es rd r = rd
         \<or> (\<exists>i us. i \<in> stored_keys rd
                \<and> append_reader es rd r = obj_set rd i (us @ [read_user r]))"
proof (cases "last_read r")
  case None
  then show ?thesis by (simp add: append_reader_def)
next
  case (Some lastRead)
  note lr = this
  show ?thesis
  proof (cases "userLastReadMsgId es lastRead")
    case None
    with lr show ?thesis by (simp add: append_reader_not_found)
  next
    case (Some i)
    have i: "i \<in> stored_keys rd"
      using assms userLastReadMsgId_is_key [OF Some] by (rule subsetD)
    then obtain us where us: "obj_get rd i = Some us" using stored_keys_get by blast
    have "append_reader es rd r = obj_set rd i (us @ [read_user r])"
      using lr Some us by (rule append_reader_found)
    with i show ?thesis by blast
  qed
qed

lemma stored_keys_append_reader:
  assumes "(\<lambda>e. property_key (entry_id e)) ` set es \<subseteq> stored_keys rd"
  shows "stored_keys (append_reader es rd r) = stored_keys rd"
  using append_reader_cases [OF assms, of r] by (auto simp: stored_keys_obj_set)

lemma getReadStates_loop_foldl:
  "(\<lambda>e. property_key (entry_id e)) ` set es \<subseteq> stored_keys rd \<Longrightarrow>
   getReadStates_loop es rs rd
     = Some (foldl (append_reader es) rd (takeWhile (\<lambda>r. last_read r \<noteq> None) rs))"
proof (induction rs arbitrary: rd)
  case Nil
  show ?case by simp
next
  case (Cons r rs)
  show ?case
  proof (cases "last_read r")
    case None
    then show ?thesis by simp
  next
    case (Some lastRead)
    note lr = this
    have keys': "(\<lambda>e. property_key (entry_id e)) ` set es \<subseteq> stored_keys (append_reader es rd r)"
      using Cons.prems by (simp add: stored_keys_append_reader)
    show ?thesis
    proof (cases "userLastReadMsgId es lastRead")
      case None
      with lr Cons.IH [OF Cons.prems] show ?thesis
        by (simp add: append_reader_not_found)
    next
      case (Some i)
      have "i \<in> stored_keys rd"
        using Cons.prems userLastReadMsgId_is_key [OF Some] by (rule subsetD)
      then obtain us where us: "obj_get rd i = Some us" using stored_keys_get by blast
      have step: "append_reader es rd r = obj_set rd i (us @ [read_user r])"
        using lr Some us by (rule append_reader_found)
      have "getReadStates_loop es (r # rs) rd
            = getReadStates_loop es rs (obj_set rd i (us @ [read_user r]))"
        using lr Some us by simp
      also have "\<dots> = getReadStates_loop es rs (append_reader es rd r)"
        by (simp only: step)
      also have "\<dots> = Some (foldl (append_reader es) (append_reader es rd r)
                             (takeWhile (\<lambda>r. last_read r \<noteq> None) rs))"
        by (rule Cons.IH [OF keys'])
      also have "\<dots> = Some (foldl (append_reader es) rd
                             (takeWhile (\<lambda>r. last_read r \<noteq> None) (r # rs)))"
        using lr by simp
      finally show ?thesis .
    qed
  qed
qed

lemma stored_keys_foldl_append_reader:
  "(\<lambda>e. property_key (entry_id e)) ` set es \<subseteq> stored_keys rd
   \<Longrightarrow> stored_keys (foldl (append_reader es) rd rs) = stored_keys rd"
  by (induction rs arbitrary: rd) (simp_all add: stored_keys_append_reader)

text \<open>
  C3 (as amended). \<^verbatim>\<open>getReadStates\<close> processes the read states in iteration order and
  stops at the first one whose \<^verbatim>\<open>last_read\<close> is null, so that no later read state is
  processed. For each read state before that, it appends the user to the read-by list of
  the last message of the sequence whose \<^verbatim>\<open>updated_at\<close> is strictly before the user's
  \<^verbatim>\<open>last_read\<close>, if there is such a message and it has an id. The call always returns
  an index.
\<close>

theorem getReadStates_accumulates:
  "getReadStates read messages
     = Some (foldl (append_reader messages) (readData_init messages)
               (takeWhile (\<lambda>readState. last_read readState \<noteq> None) read))"
  by (simp add: getReadStates_def getReadStates_loop_foldl stored_keys_readData_init)

text \<open>
  Three messages updated at 100, 300 and 700, and the read states of \<^verbatim>\<open>bob\<close> (read up to
  500), of a user with a null pointer, and of \<^verbatim>\<open>alice\<close> (read up to 500): \<^verbatim>\<open>bob\<close> is
  attributed to the second message, and \<^verbatim>\<open>alice\<close>, after the null pointer, to none.
\<close>

theorem getReadStates_accumulates_witness:
  "\<exists>readData.
     getReadStates [bob_read, null_read, alice_read]
       [Msg (regular_message (Some ''a'') 100 alice), Msg (regular_message (Some ''b'') 300 alice),
        Msg (regular_message (Some ''c'') 700 alice)] = Some readData
     \<and> obj_get readData ''a'' = Some [] \<and> obj_get readData ''b'' = Some [bob]
     \<and> obj_get readData ''c'' = Some []"
  using getReadStates_accumulates [of "[bob_read, null_read, alice_read]"
      "[Msg (regular_message (Some ''a'') 100 alice), Msg (regular_message (Some ''b'') 300 alice),
        Msg (regular_message (Some ''c'') 700 alice)]"]
  by (simp add: bob_read_def null_read_def alice_read_def regular_message_def append_reader_def
      last_message_before_def readData_init_def property_key_def obj_get_set)

text \<open>
  The claim as it is worded fails for a message without an id: a pending message updated at
  100 is the last message before the read pointer 500 of \<^verbatim>\<open>bob\<close>, and its read-by list
  is empty after the call.
\<close>

theorem getReadStates_counterexample:
  "last_message_before [Msg pending_message] 500 = Some pending_message
   \<and> last_read bob_read = Some 500
   \<and> (case getReadStates [bob_read] [Msg pending_message] of
         None \<Rightarrow> False
       | Some readData \<Rightarrow> readBy readData pending_message = [])"
  by (simp add: last_message_before_def pending_message_def regular_message_def bob_read_def
      getReadStates_def readData_init_def userLastReadMsgId_def updated_before_def
      readBy_def property_key_def obj_get_set)

subsection \<open>The keys of the read index\<close>

lemma set_timeline_message_ids:
  "set (timeline_message_ids es) = {i. \<exists>e \<in> set es. entry_id e = Some i}"
  unfolding timeline_message_ids_def
  by (induction es rule: messages_of.induct) (auto simp: List.map_filter_simps split: option.splits)

lemma keys_of_timeline:
  "(\<lambda>e. property_key (entry_id e)) ` set es
     = set (timeline_message_ids es)
       \<union> (if \<exists>e \<in> set es. entry_id e = None then {''undefined''} else {})"
proof -
  have "(\<lambda>e. property_key (entry_id e)) ` set es
        = {i. \<exists>e \<in> set es. entry_id e = Some i}
          \<union> (if \<exists>e \<in> set es. entry_id e = None then {''undefined''} else {})"
  proof (intro set_eqI iffI)
    fix k assume "k \<in> (\<lambda>e. property_key (entry_id e)) ` set es"
    then obtain e where e: "e \<in> set es" "k = property_key (entry_id e)" by auto
    show "k \<in> {i. \<exists>e \<in> set es. entry_id e = Some i}
          \<union> (if \<exists>e \<in> set es. entry_id e = None then {''undefined''} else {})"
    proof (cases "entry_id e")
      case None
      with e show ?thesis by (auto simp: property_key_def)
    next
      case (Some i)
      with e have "k = i" by (simp add: property_key_def)
      with e Some show ?thesis by auto
    qed
  next
    fix k assume k: "k \<in> {i. \<exists>e \<in> set es. entry_id e = Some i}
          \<union> (if \<exists>e \<in> set es. entry_id e = None then {''undefined''} else {})"
    show "k \<in> (\<lambda>e. property_key (entry_id e)) ` set es"
    proof (cases "\<exists>e \<in> set es. entry_id e = Some k")
      case True
      then obtain e where "e \<in> set es" "entry_id e = Some k" by auto
      then have "e \<in> set es" "property_key (entry_id e) = k" by (simp_all add: property_key_def)
      then show ?thesis by (rule_tac x = e in image_eqI) simp_all
    next
      case False
      with k obtain e where "e \<in> set es" "entry_id e = None" "k = ''undefined''"
        by (auto split: if_splits)
      then have "e \<in> set es" "property_key (entry_id e) = k" by (simp_all add: property_key_def)
      then show ?thesis by (rule_tac x = e in image_eqI) simp_all
    qed
  qed
  then show ?thesis by (simp only: set_timeline_message_ids)
qed

text \<open>The own keys of the index: every key of the first loop but \<^verbatim>\<open>__proto__\<close>.\<close>

lemma dom_own_obj_set:
  "dom (own (obj_set obj k v))
     = (if k = ''__proto__'' then dom (own obj) else insert k (dom (own obj)))"
  by (simp add: obj_set_def)

lemma dom_own_foldl_init:
  "dom (own (foldl (\<lambda>readData message. obj_set readData (property_key (entry_id message)) [])
              rd es))
     = dom (own rd) \<union> ((\<lambda>e. property_key (entry_id e)) ` set es - {''__proto__''})"
  by (induction es arbitrary: rd) (auto simp: dom_own_obj_set)

lemma dom_own_readData_init:
  "dom (own (readData_init es)) = (\<lambda>e. property_key (entry_id e)) ` set es - {''__proto__''}"
  by (simp add: readData_init_def dom_own_foldl_init empty_object_def)

lemma stored_own: "i \<in> stored_keys obj \<Longrightarrow> i \<noteq> ''__proto__'' \<Longrightarrow> i \<in> dom (own obj)"
  by (auto simp: stored_keys_def obj_get_def)

lemma dom_own_append_reader:
  assumes "(\<lambda>e. property_key (entry_id e)) ` set es \<subseteq> stored_keys rd"
  shows "dom (own (append_reader es rd r)) = dom (own rd)"
proof -
  from append_reader_cases [OF assms, of r]
  consider "append_reader es rd r = rd"
    | i us where "i \<in> stored_keys rd" "append_reader es rd r = obj_set rd i (us @ [read_user r])"
    by blast
  then show ?thesis
  proof cases
    case 1
    then show ?thesis by simp
  next
    case 2
    show ?thesis
    proof (cases "i = ''__proto__''")
      case True
      with 2 show ?thesis by (simp add: dom_own_obj_set)
    next
      case False
      with 2(1) have "i \<in> dom (own rd)" by (simp add: stored_own)
      with 2 False show ?thesis by (simp add: dom_own_obj_set insert_absorb)
    qed
  qed
qed

lemma dom_own_foldl_append_reader:
  "(\<lambda>e. property_key (entry_id e)) ` set es \<subseteq> stored_keys rd
   \<Longrightarrow> dom (own (foldl (append_reader es) rd rs)) = dom (own rd)"
  by (induction rs arbitrary: rd) (simp_all add: dom_own_append_reader stored_keys_append_reader)

lemma getReadStates_keys:
  "\<exists>readData. getReadStates read es = Some readData
     \<and> dom (own readData) = (\<lambda>e. property_key (entry_id e)) ` set es - {''__proto__''}
     \<and> stored_keys readData = (\<lambda>e. property_key (entry_id e)) ` set es"
  by (simp add: getReadStates_def getReadStates_loop_foldl stored_keys_readData_init
      dom_own_foldl_append_reader dom_own_readData_init stored_keys_foldl_append_reader)

text \<open>
  C4 (as amended). In every build cycle that builds a timeline, whichever timeline
  \<^verbatim>\<open>render\<close> passes,
  \<^verbatim>\<open>getReadStates\<close> returns an index whose keys are the ids of the Message entries of the
  timeline that have one, without the id \<^verbatim>\<open>__proto__\<close> (the assignment to that key
  replaces the prototype of the index and creates no key), together with the key
  \<^verbatim>\<open>'undefined'\<close> when an entry of the timeline has no id (a date marker, an event
  wrapper or a message without id). Every key holds a list, and what \<^verbatim>\<open>render\<close> looks
  up for a Message entry of the timeline is never missing.
\<close>

theorem readData_keys:
  "\<exists>readData.
     getReadStates read timeline = Some readData
     \<and> dom (own readData)
         = (set (timeline_message_ids timeline) - {''__proto__''})
           \<union> (if \<exists>e \<in> set timeline. entry_id e = None then {''undefined''} else {})
     \<and> (\<forall>m. Msg m \<in> set timeline
            \<longrightarrow> obj_get readData (property_key (message_id m)) \<noteq> None)"
proof -
  obtain readData where rd: "getReadStates read timeline = Some readData"
    "dom (own readData) = (\<lambda>e. property_key (entry_id e)) ` set timeline - {''__proto__''}"
    "stored_keys readData = (\<lambda>e. property_key (entry_id e)) ` set timeline"
    using getReadStates_keys [of read timeline] by (elim exE conjE)
  have "\<forall>m. Msg m \<in> set timeline \<longrightarrow> obj_get readData (property_key (message_id m)) \<noteq> None"
  proof (intro allI impI)
    fix m assume "Msg m \<in> set timeline"
    then have "property_key (entry_id (Msg m)) \<in> stored_keys readData"
      unfolding rd(3) by (rule imageI)
    then show "obj_get readData (property_key (message_id m)) \<noteq> None"
      by (simp add: stored_keys_def)
  qed
  moreover have "dom (own readData)
         = (set (timeline_message_ids timeline) - {''__proto__''})
           \<union> (if \<exists>e \<in> set timeline. entry_id e = None then {''undefined''} else {})"
  proof (cases "\<exists>e \<in> set timeline. entry_id e = None")
    case True
    have "insert ''undefined'' (set (timeline_message_ids timeline)) - {''__proto__''}
          = insert ''undefined'' (set (timeline_message_ids timeline) - {''__proto__''})"
      by (rule insert_Diff_if [THEN trans]) simp
    with True show ?thesis by (simp add: rd(2) keys_of_timeline)
  next
    case False
    show ?thesis
      by (simp only: rd(2) keys_of_timeline if_not_P [OF False] Un_empty_right)
  qed
  ultimately show ?thesis using rd(1) by (intro exI [of _ readData] conjI)
qed

text \<open>
  A timeline of a date marker, a message with the id \<^verbatim>\<open>a\<close> and a message with the id
  \<^verbatim>\<open>__proto__\<close>: the keys of the index are \<^verbatim>\<open>a\<close> and \<^verbatim>\<open>undefined\<close>, and the lookup
  of \<^verbatim>\<open>__proto__\<close> finds a list.
\<close>

theorem readData_keys_witness:
  "\<exists>readData.
     getReadStates [bob_read]
       [DateMarker 100, Msg (regular_message (Some ''a'') 100 alice), Msg proto_message]
       = Some readData
     \<and> dom (own readData) = {''a'', ''undefined''}
     \<and> obj_get readData ''__proto__'' \<noteq> None"
proof -
  let ?tl = "[DateMarker 100, Msg (regular_message (Some ''a'') 100 alice), Msg proto_message]"
  from readData_keys [of "[bob_read]" ?tl]
  obtain readData where rd: "getReadStates [bob_read] ?tl = Some readData"
    "dom (own readData)
         = (set (timeline_message_ids ?tl) - {''__proto__''})
           \<union> (if \<exists>e \<in> set ?tl. entry_id e = None then {''undefined''} else {})"
    "\<forall>m. Msg m \<in> set ?tl \<longrightarrow> obj_get readData (property_key (message_id m)) \<noteq> None"
    by (elim exE conjE)
  have ids: "timeline_message_ids ?tl = [''a'', ''__proto__'']"
    by (simp add: timeline_message_ids_def List.map_filter_simps regular_message_def
        proto_message_def)
  have k: "dom (own readData) = {''a'', ''undefined''}"
    unfolding rd(2) ids by auto
  have "Msg proto_message \<in> set ?tl" by simp
  with rd(3) have "obj_get readData (property_key (message_id proto_message)) \<noteq> None"
    by blast
  then have p: "obj_get readData ''__proto__'' \<noteq> None"
    by (simp add: property_key_def proto_message_def regular_message_def)
  from rd(1) k p show ?thesis by blast
qed

text \<open>
  The claim as it is worded fails for one message with the id \<^verbatim>\<open>a\<close>: the timeline that
  \<^verbatim>\<open>render\<close> builds holds a date marker before it, the only id of a Message entry is
  \<^verbatim>\<open>a\<close>, and the index has the key \<^verbatim>\<open>undefined\<close> as well.
\<close>

theorem readData_keys_counterexample:
  "render_allMessages utc (plain_object Map.empty) [regular_message (Some ''a'') 100 alice]
     = Inr (Some [DateMarker 100, Msg (regular_message (Some ''a'') 100 alice)])
   \<and> timeline_message_ids [DateMarker 100, Msg (regular_message (Some ''a'') 100 alice)] = [''a'']
   \<and> (case getReadStates [] [DateMarker 100, Msg (regular_message (Some ''a'') 100 alice)] of
         None \<Rightarrow> False
       | Some readData \<Rightarrow> own readData ''undefined'' = Some [])"
proof -
  have ins: "insertDates utc (plain_object Map.empty) [regular_message (Some ''a'') 100 alice]
             = Inr [DateMarker 100, Msg (regular_message (Some ''a'') 100 alice)]"
    by (simp add: insertDates_def insertDates_iteration_def regular_message_def id_or_first_def
        plain_object_def Object_prototype_def)
  have "Array_sort compare_created_at [DateMarker 100, Msg (regular_message (Some ''a'') 100 alice)]
        = Some [DateMarker 100, Msg (regular_message (Some ''a'') 100 alice)]"
    by (rule Array_sort_equal) (simp add: SortCompare_def compare_created_at_def)
  with ins have r: "render_allMessages utc (plain_object Map.empty)
        [regular_message (Some ''a'') 100 alice]
     = Inr (Some [DateMarker 100, Msg (regular_message (Some ''a'') 100 alice)])"
    by (simp add: render_allMessages_def)
  have i: "timeline_message_ids [DateMarker 100, Msg (regular_message (Some ''a'') 100 alice)]
           = [''a'']"
    by (simp add: timeline_message_ids_def List.map_filter_simps regular_message_def)
  have g: "(case getReadStates [] [DateMarker 100, Msg (regular_message (Some ''a'') 100 alice)] of
         None \<Rightarrow> False
       | Some readData \<Rightarrow> own readData ''undefined'' = Some [])"
    by (simp add: getReadStates_def readData_init_def property_key_def obj_set_def
        empty_object_def regular_message_def)
  from r i g show ?thesis by simp
qed

subsection \<open>Group styles\<close>

text \<open>
  The entries beside a position, as the loop body reads them, and the two conditions of
  the loop body in the words of the specification.
\<close>

lemma array_get_before: "i < length es \<Longrightarrow> array_get es (int i - 1) = entry_before es i"
proof (cases i)
  case 0
  then show ?thesis by (simp add: array_get_def entry_before_def)
next
  case (Suc n)
  assume "i < length es"
  with Suc show ?thesis by (simp add: array_get_def entry_before_def)
qed

lemma array_get_after: "array_get es (int i + 1) = entry_after es i"
proof -
  have "nat (int i + 1) = i + 1" by simp
  then show ?thesis by (simp add: array_get_def entry_after_def)
qed

lemma isTopMessage_continues: "isTopMessage uid e \<longleftrightarrow> \<not> continues_group uid e"
  by (cases "(uid, e)" rule: continues_group.cases)
    (auto simp: isTopMessage_def groupable_def)

lemma isBottomMessage_continues: "isBottomMessage uid e \<longleftrightarrow> \<not> continues_group uid e"
  by (cases "(uid, e)" rule: continues_group.cases)
    (auto simp: isBottomMessage_def groupable_def)

lemma groupStyles_at_groupable:
  assumes "i < length es" "es ! i = Msg m" "groupable m"
  shows "groupStyles_at False es i =
     Some (if continues_group (user_id (user m)) (entry_before es i)
           then (if continues_group (user_id (user m)) (entry_after es i)
                 then [''middle''] else [''bottom''])
           else (if continues_group (user_id (user m)) (entry_after es i)
                 then [''top''] else [''single'']))"
  using assms
  by (simp add: groupStyles_at_def Let_def groupable_def array_get_before array_get_after
      isTopMessage_continues isBottomMessage_continues)

lemma groupStyles_at_attachments:
  assumes "es ! j = Msg m" "message_type m \<noteq> ''message.date''"
    "message_type m \<noteq> ''channel.event''" "attachments m \<noteq> []"
  shows "groupStyles_at noGroupByUser es j = Some [''single'']"
  using assms by (simp add: groupStyles_at_def Let_def)

lemma groupStyles_at_noGroupByUser:
  assumes "es ! j = Msg m" "message_type m \<noteq> ''message.date''"
    "message_type m \<noteq> ''channel.event''"
  shows "groupStyles_at True es j = Some [''single'']"
  using assms by (simp add: groupStyles_at_def Let_def)

lemma groupStyles_at_single:
  "groupStyles_at True es j = Some styles \<Longrightarrow> styles = [''single'']"
  by (auto simp: groupStyles_at_def Let_def split: if_splits entry.splits)

lemma groupStyles_at_message:
  "groupStyles_at noGroupByUser es j = Some styles \<Longrightarrow> \<exists>m. es ! j = Msg m"
  by (auto simp: groupStyles_at_def Let_def split: if_splits entry.splits)

text \<open>What the loop of \<^verbatim>\<open>getGroupStyles\<close> leaves under a key.\<close>

lemma foldl_groupStyles_kept:
  assumes "\<forall>i \<in> set is. groupStyles_at ng es i = None \<or> property_key (entry_id (es ! i)) \<noteq> k"
  shows "obj_get (foldl (\<lambda>messageGroupStyles i.
              case groupStyles_at ng es i of
                None \<Rightarrow> messageGroupStyles
              | Some groupStyles \<Rightarrow>
                  obj_set messageGroupStyles (property_key (entry_id (es ! i))) groupStyles)
            start is) k = obj_get start k"
  using assms
proof (induction "is" arbitrary: start)
  case Nil
  show ?case by simp
next
  case (Cons i "is")
  then have rest: "\<forall>i \<in> set is. groupStyles_at ng es i = None
                     \<or> property_key (entry_id (es ! i)) \<noteq> k" by simp
  from Cons.prems have here: "groupStyles_at ng es i = None
                     \<or> property_key (entry_id (es ! i)) \<noteq> k" by simp
  show ?case
    using here by (auto simp: Cons.IH [OF rest] obj_get_set split: option.splits)
qed

lemma foldl_groupStyles_value:
  "obj_get (foldl (\<lambda>messageGroupStyles i.
              case groupStyles_at ng es i of
                None \<Rightarrow> messageGroupStyles
              | Some groupStyles \<Rightarrow>
                  obj_set messageGroupStyles (property_key (entry_id (es ! i))) groupStyles)
       start is) k = Some styles
   \<Longrightarrow> obj_get start k = Some styles \<or> (\<exists>i \<in> set is. groupStyles_at ng es i = Some styles)"
proof (induction "is" arbitrary: start)
  case Nil
  then show ?case by simp
next
  case (Cons i "is")
  from Cons.IH [OF Cons.prems [simplified]] show ?case
    by (auto simp: obj_get_set split: option.splits if_splits)
qed

lemma foldl_groupStyles_stored:
  "obj_get start k \<noteq> None
     \<or> (\<exists>i \<in> set is. groupStyles_at ng es i \<noteq> None \<and> property_key (entry_id (es ! i)) = k)
   \<Longrightarrow> obj_get (foldl (\<lambda>messageGroupStyles i.
              case groupStyles_at ng es i of
                None \<Rightarrow> messageGroupStyles
              | Some groupStyles \<Rightarrow>
                  obj_set messageGroupStyles (property_key (entry_id (es ! i))) groupStyles)
       start is) k \<noteq> None"
proof (induction "is" arbitrary: start)
  case Nil
  then show ?case by simp
next
  case (Cons i "is")
  show ?case
    unfolding foldl_Cons
    by (rule Cons.IH) (use Cons.prems in \<open>auto simp: obj_get_set split: option.splits\<close>)
qed

lemma id_not_reused_later:
  assumes "id_not_reused es j" "j < i" "i < length es" "es ! i = Msg m"
  shows "property_key (entry_id (es ! i)) \<noteq> property_key (entry_id (es ! j))"
proof -
  have "es ! i \<in> set (drop (Suc j) es)"
    using assms(2,3) by (auto simp: in_set_conv_nth intro!: exI [of _ "i - Suc j"])
  then have "m \<in> set (messages_of (drop (Suc j) es))"
    using assms(4) by (simp add: messages_of_set)
  then have "property_key (message_id m)
      \<in> set (map (\<lambda>m. property_key (message_id m)) (messages_of (drop (Suc j) es)))"
    by simp
  with assms(1,4) show ?thesis by (auto simp: id_not_reused_def)
qed

lemma getGroupStyles_last_write:
  assumes "j < length es" "groupStyles_at ng es j = Some styles" "id_not_reused es j"
  shows "obj_get (getGroupStyles ng es) (property_key (entry_id (es ! j))) = Some styles"
proof -
  let ?k = "property_key (entry_id (es ! j))"
  let ?f = "\<lambda>messageGroupStyles i.
              case groupStyles_at ng es i of
                None \<Rightarrow> messageGroupStyles
              | Some groupStyles \<Rightarrow>
                  obj_set messageGroupStyles (property_key (entry_id (es ! i))) groupStyles"
  have "[0..<j + (length es - j)] = [0..<j] @ [j..<j + (length es - j)]"
    by (rule upt_add_eq_append) simp
  then have "[0..<j] @ [j..<length es] = [0..<length es]"
    using assms(1) by simp
  moreover have "[j..<length es] = j # [Suc j..<length es]"
    using assms(1) by (rule upt_conv_Cons)
  ultimately have split: "[0..<length es] = [0..<j] @ j # [Suc j..<length es]"
    by simp
  have later: "\<forall>i \<in> set [Suc j..<length es].
      groupStyles_at ng es i = None \<or> property_key (entry_id (es ! i)) \<noteq> ?k"
  proof
    fix i assume i: "i \<in> set [Suc j..<length es]"
    show "groupStyles_at ng es i = None \<or> property_key (entry_id (es ! i)) \<noteq> ?k"
    proof (cases "groupStyles_at ng es i")
      case None
      then show ?thesis by simp
    next
      case (Some gs)
      then obtain m where m: "es ! i = Msg m" using groupStyles_at_message by blast
      from i have "j < i" "i < length es" by simp_all
      with assms(3) have "property_key (entry_id (es ! i)) \<noteq> ?k"
        using m by (rule id_not_reused_later)
      then show ?thesis by simp
    qed
  qed
  have "obj_get (getGroupStyles ng es) ?k
        = obj_get (foldl ?f (?f (foldl ?f empty_object [0..<j]) j) [Suc j..<length es]) ?k"
    unfolding getGroupStyles_def by (subst split) simp
  also have "\<dots> = obj_get (?f (foldl ?f empty_object [0..<j]) j) ?k"
    using later by (rule foldl_groupStyles_kept)
  also have "\<dots> = Some styles"
    using assms(2) by (simp add: obj_get_set)
  finally show ?thesis .
qed

lemma getGroupStyles_noGroupByUser:
  assumes "j < length es" "es ! j = Msg m" "message_type m \<noteq> ''message.date''"
    "message_type m \<noteq> ''channel.event''"
  shows "obj_get (getGroupStyles True es) (property_key (message_id m)) = Some [''single'']"
proof -
  let ?k = "property_key (message_id m)"
  have at: "groupStyles_at True es j = Some [''single'']"
    using assms(2-4) by (rule groupStyles_at_noGroupByUser)
  have "j \<in> set [0..<length es]" using assms(1) by simp
  moreover have "groupStyles_at True es j \<noteq> None \<and> property_key (entry_id (es ! j)) = ?k"
    using at assms(2) by simp
  ultimately have "obj_get (getGroupStyles True es) ?k \<noteq> None"
    unfolding getGroupStyles_def by (intro foldl_groupStyles_stored disjI2) blast
  then obtain styles where s: "obj_get (getGroupStyles True es) ?k = Some styles" by auto
  then have "obj_get empty_object ?k = Some styles
             \<or> (\<exists>i \<in> set [0..<length es]. groupStyles_at True es i = Some styles)"
    unfolding getGroupStyles_def by (rule foldl_groupStyles_value)
  then have "\<exists>i. groupStyles_at True es i = Some styles"
    by (auto simp: obj_get_def empty_object_def split: if_splits)
  then have "styles = [''single'']" using groupStyles_at_single by blast
  with s show ?thesis by simp
qed


text \<open>
  C5 (as amended). \<^verbatim>\<open>getGroupStyles\<close> stores the styles of a message under its id, so
  what it returns for a message is stated for a message whose id no later message of the
  timeline has (an absent id counts as the id \<^verbatim>\<open>undefined\<close>). With \<^verbatim>\<open>noGroupByUser\<close>
  unset, for any three consecutive messages of the same user that have no attachments, no
  system or error type and no soft-deletion, and no date marker or event entry between
  them, the returned object gives the middle message \<^verbatim>\<open>middle\<close>; it gives the first
  message \<^verbatim>\<open>top\<close>, unless the entry before it is one more such message of the same
  user, and then \<^verbatim>\<open>middle\<close>; it gives the last message \<^verbatim>\<open>bottom\<close>, unless the entry
  after it is one more such message of the same user, and then \<^verbatim>\<open>middle\<close>. Any message
  with attachments is given \<^verbatim>\<open>single\<close>, whatever its neighbours and the flag are. When
  \<^verbatim>\<open>noGroupByUser\<close> is set, every message is given \<^verbatim>\<open>single\<close>, whether its id is
  shared or not.
\<close>

theorem getGroupStyles_styles:
  "(i + 2 < length es \<and> es ! i = Msg a \<and> es ! (i + 1) = Msg b \<and> es ! (i + 2) = Msg c
      \<and> user_id (user a) = user_id (user b) \<and> user_id (user b) = user_id (user c)
      \<and> groupable a \<and> groupable b \<and> groupable c
    \<longrightarrow> (id_not_reused es (i + 1)
          \<longrightarrow> groupStyles_of (getGroupStyles False es) b = Some [''middle''])
        \<and> (id_not_reused es i
          \<longrightarrow> groupStyles_of (getGroupStyles False es) a
              = Some [if continues_group (user_id (user a)) (entry_before es i)
                      then ''middle'' else ''top''])
        \<and> (id_not_reused es (i + 2)
          \<longrightarrow> groupStyles_of (getGroupStyles False es) c
              = Some [if continues_group (user_id (user c)) (entry_after es (i + 2))
                      then ''middle'' else ''bottom'']))
   \<and> (j < length es \<and> es ! j = Msg m \<and> message_type m \<noteq> ''message.date''
      \<and> message_type m \<noteq> ''channel.event'' \<and> attachments m \<noteq> [] \<and> id_not_reused es j
    \<longrightarrow> groupStyles_of (getGroupStyles noGroupByUser es) m = Some [''single''])
   \<and> (j < length es \<and> es ! j = Msg m \<and> message_type m \<noteq> ''message.date''
      \<and> message_type m \<noteq> ''channel.event''
    \<longrightarrow> groupStyles_of (getGroupStyles True es) m = Some [''single''])"
proof (intro conjI impI)
  assume h: "i + 2 < length es \<and> es ! i = Msg a \<and> es ! (i + 1) = Msg b \<and> es ! (i + 2) = Msg c
      \<and> user_id (user a) = user_id (user b) \<and> user_id (user b) = user_id (user c)
      \<and> groupable a \<and> groupable b \<and> groupable c"
  then have len: "i < length es" "Suc i < length es" "Suc (Suc i) < length es" by simp_all
  from h have at: "es ! i = Msg a" "es ! Suc i = Msg b" "es ! Suc (Suc i) = Msg c" by simp_all
  from h have g: "groupable a" "groupable b" "groupable c" by simp_all
  from h have u: "user_id (user a) = user_id (user b)" "user_id (user b) = user_id (user c)"
    by simp_all
  have before_b: "entry_before es (Suc i) = Some (Msg a)"
    using at by (simp add: entry_before_def)
  have after_b: "entry_after es (Suc i) = Some (Msg c)"
    using at len by (simp add: entry_after_def)
  have after_a: "entry_after es i = Some (Msg b)"
    using at len by (simp add: entry_after_def)
  have before_c: "entry_before es (Suc (Suc i)) = Some (Msg b)"
    using at by (simp add: entry_before_def)
  have style_b: "groupStyles_at False es (Suc i) = Some [''middle'']"
    unfolding groupStyles_at_groupable [OF len(2) at(2) g(2)] before_b after_b
    using g u by simp
  have style_a: "groupStyles_at False es i
      = Some [if continues_group (user_id (user a)) (entry_before es i)
              then ''middle'' else ''top'']"
    unfolding groupStyles_at_groupable [OF len(1) at(1) g(1)] after_a
    using g u by simp
  have style_c: "groupStyles_at False es (Suc (Suc i))
      = Some [if continues_group (user_id (user c)) (entry_after es (Suc (Suc i)))
              then ''middle'' else ''bottom'']"
    unfolding groupStyles_at_groupable [OF len(3) at(3) g(3)] before_c
    using g u by simp
  {
    assume "id_not_reused es (i + 1)"
    then have "id_not_reused es (Suc i)" by simp
    from getGroupStyles_last_write [OF len(2) style_b this]
    show "groupStyles_of (getGroupStyles False es) b = Some [''middle'']"
      by (simp add: groupStyles_of_def at)
  }
  {
    assume "id_not_reused es i"
    from getGroupStyles_last_write [OF len(1) style_a this]
    show "groupStyles_of (getGroupStyles False es) a
              = Some [if continues_group (user_id (user a)) (entry_before es i)
                      then ''middle'' else ''top'']"
      by (simp add: groupStyles_of_def at)
  }
  {
    assume "id_not_reused es (i + 2)"
    then have "id_not_reused es (Suc (Suc i))" by simp
    from getGroupStyles_last_write [OF len(3) style_c this]
    show "groupStyles_of (getGroupStyles False es) c
              = Some [if continues_group (user_id (user c)) (entry_after es (i + 2))
                      then ''middle'' else ''bottom'']"
      by (simp add: groupStyles_of_def at)
  }
next
  assume h: "j < length es \<and> es ! j = Msg m \<and> message_type m \<noteq> ''message.date''
      \<and> message_type m \<noteq> ''channel.event'' \<and> attachments m \<noteq> [] \<and> id_not_reused es j"
  then have j: "j < length es" and nr: "id_not_reused es j" by simp_all
  from h have style: "groupStyles_at noGroupByUser es j = Some [''single'']"
    by (simp add: groupStyles_at_attachments)
  have "obj_get (getGroupStyles noGroupByUser es) (property_key (entry_id (es ! j)))
               = Some [''single'']"
    using j style nr by (rule getGroupStyles_last_write)
  with h show "groupStyles_of (getGroupStyles noGroupByUser es) m = Some [''single'']"
    by (simp add: groupStyles_of_def)
next
  assume "j < length es \<and> es ! j = Msg m \<and> message_type m \<noteq> ''message.date''
      \<and> message_type m \<noteq> ''channel.event''"
  then have "j < length es" "es ! j = Msg m" "message_type m \<noteq> ''message.date''"
    "message_type m \<noteq> ''channel.event''" by simp_all
  then have "obj_get (getGroupStyles True es) (property_key (message_id m)) = Some [''single'']"
    by (rule getGroupStyles_noGroupByUser)
  then show "groupStyles_of (getGroupStyles True es) m = Some [''single'']"
    by (simp add: groupStyles_of_def)
qed

text \<open>
  Four consecutive messages of \<^verbatim>\<open>alice\<close> with four ids: the first three and the last three
  are three consecutive messages of one user. A message of \<^verbatim>\<open>bob\<close> with an attachment
  after them is \<^verbatim>\<open>single\<close>.
\<close>

theorem getGroupStyles_styles_witness:
  "groupStyles_of (getGroupStyles False four_messages) (regular_message (Some ''a'') 100 alice)
     = Some [''top'']
   \<and> groupStyles_of (getGroupStyles False four_messages) (regular_message (Some ''b'') 200 alice)
     = Some [''middle'']
   \<and> groupStyles_of (getGroupStyles False four_messages) (regular_message (Some ''c'') 300 alice)
     = Some [''middle'']
   \<and> groupStyles_of (getGroupStyles False four_messages) (regular_message (Some ''d'') 400 alice)
     = Some [''bottom'']
   \<and> groupStyles_of (getGroupStyles False (four_messages @ [Msg attachment_message]))
        attachment_message = Some [''single'']
   \<and> groupStyles_of (getGroupStyles True four_messages) (regular_message (Some ''b'') 200 alice)
     = Some [''single'']"
  using getGroupStyles_styles [of 0 four_messages "regular_message (Some ''a'') 100 alice"
      "regular_message (Some ''b'') 200 alice" "regular_message (Some ''c'') 300 alice"
      1 "regular_message (Some ''b'') 200 alice" False]
    getGroupStyles_styles [of 1 four_messages "regular_message (Some ''b'') 200 alice"
      "regular_message (Some ''c'') 300 alice" "regular_message (Some ''d'') 400 alice"
      1 "regular_message (Some ''b'') 200 alice" False]
    getGroupStyles_styles [of 0 "four_messages @ [Msg attachment_message]"
      "regular_message (Some ''a'') 100 alice"
      "regular_message (Some ''b'') 200 alice" "regular_message (Some ''c'') 300 alice"
      4 attachment_message False]
  by (simp add: four_messages_def groupable_def regular_message_def attachment_message_def
      id_not_reused_def property_key_def entry_before_def entry_after_def
      numeral_2_eq_2 numeral_3_eq_3)

text \<open>
  The claim as it is worded fails in a group of four: the second, third and fourth message
  are three consecutive messages of \<^verbatim>\<open>alice\<close>, and the first of them, with the id
  \<^verbatim>\<open>b\<close>, is given \<^verbatim>\<open>middle\<close>, not \<^verbatim>\<open>top\<close>. It fails for three pending messages
  as well: they share the key \<^verbatim>\<open>undefined\<close>, and the returned object gives the first
  and the middle one the style of the last, \<^verbatim>\<open>bottom\<close>.
\<close>

theorem getGroupStyles_counterexample:
  "groupStyles_of (getGroupStyles False four_messages) (regular_message (Some ''b'') 200 alice)
     = Some [''middle'']
   \<and> groupStyles_of (getGroupStyles False three_pending) (regular_message None 100 alice)
     = Some [''bottom'']
   \<and> groupStyles_of (getGroupStyles False three_pending) (regular_message None 200 alice)
     = Some [''bottom'']"
  by (simp add: getGroupStyles_def groupStyles_at_def four_messages_def three_pending_def
      regular_message_def isTopMessage_def isBottomMessage_def array_get_def property_key_def
      groupStyles_of_def obj_get_def obj_set_def empty_object_def upt_rec [of 0]
      numeral_2_eq_2 numeral_3_eq_3)

subsection \<open>The notification\<close>

lemma array_get_last:
  "array_get xs (int (length xs) - 1) = (if xs = [] then None else Some (last xs))"
proof (cases "xs = []")
  case True
  then show ?thesis by (simp add: array_get_def)
next
  case False
  then have "nat (int (length xs) - 1) = length xs - 1" by simp
  with False show ?thesis by (simp add: array_get_def last_conv_nth)
qed

lemma array_get_Nil: "array_get [] i = None"
  by (simp add: array_get_def)

text \<open>
  C6. In an update where the previous and the current message sequence are both non-empty:
  if the id of the last message has changed and the local user wrote the new last message,
  \<^verbatim>\<open>scrollToBottom\<close> is called and the flag \<^verbatim>\<open>newMessagesNotification\<close> is false after
  the update; if the id of the last message has changed, another user wrote it, the scroll
  offset is above 310 and no notification is pending, the flag becomes true and
  \<^verbatim>\<open>scrollToBottom\<close> is not called. If the previous or the current sequence is empty,
  \<^verbatim>\<open>scrollToBottom\<close> is not called and the state stays as it is.
\<close>

theorem componentDidUpdate_notification:
  "(prevMessages \<noteq> [] \<and> messages \<noteq> []
      \<and> message_id (last messages) \<noteq> message_id (last prevMessages)
      \<and> user_id (user (last messages)) = userID
    \<longrightarrow> componentDidUpdate userID scrollOffset prevMessages messages st
          = (True, st\<lparr>newMessagesNotification := False\<rparr>))
   \<and> (prevMessages \<noteq> [] \<and> messages \<noteq> []
      \<and> message_id (last messages) \<noteq> message_id (last prevMessages)
      \<and> user_id (user (last messages)) \<noteq> userID
      \<and> scrollOffset = Some offset \<and> offset > 310
      \<and> \<not> newMessagesNotification st
    \<longrightarrow> componentDidUpdate userID scrollOffset prevMessages messages st
          = (False, st\<lparr>newMessagesNotification := True\<rparr>))
   \<and> (prevMessages = [] \<or> messages = []
    \<longrightarrow> componentDidUpdate userID scrollOffset prevMessages messages st = (False, st))"
  by (cases st) (auto simp: componentDidUpdate_def array_get_last array_get_Nil userScrolledUp_def Let_def)

text \<open>
  The three cases at concrete updates: the local user \<^verbatim>\<open>alice\<close> sends a message while a
  notification is pending; \<^verbatim>\<open>bob\<close> sends one while \<^verbatim>\<open>alice\<close> is scrolled up by 400; the
  first messages arrive in an empty list.
\<close>

theorem componentDidUpdate_notification_witness:
  "componentDidUpdate ''alice'' (Some 400) [regular_message (Some ''a'') 100 bob]
       [regular_message (Some ''a'') 100 bob, regular_message (Some ''b'') 200 alice]
       (idle_state\<lparr>newMessagesNotification := True\<rparr>)
     = (True, idle_state)
   \<and> componentDidUpdate ''alice'' (Some 400) [regular_message (Some ''a'') 100 alice]
       [regular_message (Some ''a'') 100 alice, regular_message (Some ''b'') 200 bob]
       idle_state
     = (False, idle_state\<lparr>newMessagesNotification := True\<rparr>)
   \<and> componentDidUpdate ''alice'' (Some 400) []
       [regular_message (Some ''a'') 100 alice, regular_message (Some ''b'') 200 bob]
       idle_state
     = (False, idle_state)"
  using componentDidUpdate_notification
      [of "[regular_message (Some ''a'') 100 bob]"
          "[regular_message (Some ''a'') 100 bob, regular_message (Some ''b'') 200 alice]"
          "''alice''" "Some 400" "idle_state\<lparr>newMessagesNotification := True\<rparr>" 400]
    componentDidUpdate_notification
      [of "[regular_message (Some ''a'') 100 alice]"
          "[regular_message (Some ''a'') 100 alice, regular_message (Some ''b'') 200 bob]"
          "''alice''" "Some 400" idle_state 400]
    componentDidUpdate_notification
      [of "[]"
          "[regular_message (Some ''a'') 100 alice, regular_message (Some ''b'') 200 bob]"
          "''alice''" "Some 400" idle_state 400]
  by (simp add: regular_message_def alice_def bob_def idle_state_def)

subsection \<open>The bucket of the key first\<close>






subsection \<open>Messages are retained\<close>




subsection \<open>Mentions\<close>

text \<open>
  C9 (as amended). For a hover or a click on a mention (a \<^verbatim>\<open>strong\<close> element whose text
  starts with \<^verbatim>\<open>@\<close>) that names a user who is not in the list of mentioned users, a
  callback is still invoked when the props hold both callbacks: once, with the user
  \<^verbatim>\<open>undefined\<close>; for a hover the callback is \<^verbatim>\<open>onMentionsHover\<close>. No callback is invoked
  when one of the two callbacks is missing or the event is neither a \<^verbatim>\<open>mouseover\<close> nor a
  \<^verbatim>\<open>click\<close>.
\<close>

theorem onMentionsHoverOrClick_user_not_found:
  "is_mention e \<and> mentioned_user e mentioned_users = None \<longrightarrow>
     (hasOnMentionsHover \<and> hasOnMentionsClick \<and> dom_event_type e = ''mouseover''
        \<longrightarrow> onMentionsHoverOrClick hasOnMentionsHover hasOnMentionsClick e mentioned_users
             = [(onMentionsHover, None)])
     \<and> (hasOnMentionsHover \<and> hasOnMentionsClick \<and> dom_event_type e = ''click''
        \<longrightarrow> length (onMentionsHoverOrClick hasOnMentionsHover hasOnMentionsClick e mentioned_users) = 1
            \<and> snd (hd (onMentionsHoverOrClick hasOnMentionsHover hasOnMentionsClick e mentioned_users))
              = None)
     \<and> (\<not> hasOnMentionsHover \<or> \<not> hasOnMentionsClick
          \<or> (dom_event_type e \<noteq> ''mouseover'' \<and> dom_event_type e \<noteq> ''click'')
        \<longrightarrow> onMentionsHoverOrClick hasOnMentionsHover hasOnMentionsClick e mentioned_users = [])"
  by (auto simp: onMentionsHoverOrClick_def is_mention_def mentioned_user_def mention_name_def Let_def)

text \<open>
  A hover and a click on the mention of \<^verbatim>\<open>carol\<close>, who is not among the mentioned users
  \<^verbatim>\<open>alice\<close> and \<^verbatim>\<open>bob\<close>, with both callbacks and with \<^verbatim>\<open>onMentionsClick\<close> missing.
\<close>

theorem onMentionsHoverOrClick_user_not_found_witness:
  "is_mention hover_carol \<and> mentioned_user hover_carol [alice, bob] = None
   \<and> onMentionsHoverOrClick True True hover_carol [alice, bob] = [(onMentionsHover, None)]
   \<and> length (onMentionsHoverOrClick True True click_carol [alice, bob]) = 1
   \<and> onMentionsHoverOrClick True False hover_carol [alice, bob] = []"
  using onMentionsHoverOrClick_user_not_found [of hover_carol "[alice, bob]" True True]
    onMentionsHoverOrClick_user_not_found [of click_carol "[alice, bob]" True True]
    onMentionsHoverOrClick_user_not_found [of hover_carol "[alice, bob]" True False]
  by (simp add: is_mention_def mentioned_user_def mention_name_def hover_carol_def click_carol_def
      alice_def bob_def toLowerCase_def)

text \<open>
  The claim as it is worded fails: the hover on the mention of \<^verbatim>\<open>carol\<close> finds no user
  in the list, and \<^verbatim>\<open>onMentionsHover\<close> is invoked all the same.
\<close>

theorem onMentionsHoverOrClick_counterexample:
  "is_mention hover_carol \<and> mentioned_user hover_carol [alice] = None
   \<and> onMentionsHoverOrClick True True hover_carol [alice] = [(onMentionsHover, None)]"
  by (simp add: is_mention_def mentioned_user_def mention_name_def hover_carol_def
      alice_def toLowerCase_def onMentionsHoverOrClick_def)

subsection \<open>The last received message\<close>

lemma last_received_snoc:
  "last_received (es @ [e]) =
     (if entry_status e = Some ''received'' then Id (entry_id e) else last_received es)"
  by (simp add: last_received_def)

lemma getLastReceived_from_take:
  "getLastReceived_from ms n = last_received (tl (take (Suc n) ms))"
proof (induction n)
  case 0
  show ?case by (cases ms) (simp_all add: last_received_def)
next
  case (Suc n)
  show ?case
  proof (cases "Suc n < length ms")
    case True
    then have ne: "take (Suc n) ms \<noteq> []" by auto
    have "take (Suc (Suc n)) ms = take (Suc n) ms @ [ms ! Suc n]"
      using True by (rule take_Suc_conv_app_nth)
    then have tl_eq: "tl (take (Suc (Suc n)) ms) = tl (take (Suc n) ms) @ [ms ! Suc n]"
      using ne by simp
    show ?thesis
      unfolding tl_eq last_received_snoc getLastReceived_from.simps
      using True Suc.IH by auto
  next
    case False
    then have "take (Suc (Suc n)) ms = take (Suc n) ms" by simp
    then show ?thesis using False Suc.IH by (simp del: take_Suc)
  qed
qed

text \<open>
  C10. \<^verbatim>\<open>getLastReceived\<close> returns the id of the last entry among the positions \<open>1\<close>
  to \<open>length - 1\<close> whose status is \<^verbatim>\<open>'received'\<close>, and \<^verbatim>\<open>null\<close> when there is none:
  the index \<open>length\<close>, where the scan starts, is out of bounds, and the scan stops before
  the index \<open>0\<close>. In particular the result is \<^verbatim>\<open>null\<close> for a sequence whose only entry
  with the status \<^verbatim>\<open>'received'\<close> is the first one.
\<close>

theorem getLastReceived_skips_first:
  "getLastReceived messages = last_received_after_first messages
   \<and> (messages \<noteq> [] \<and> entry_status (hd messages) = Some ''received''
        \<and> (\<forall>e \<in> set (tl messages). entry_status e \<noteq> Some ''received'')
      \<longrightarrow> getLastReceived messages = Null)"
proof -
  have eq: "getLastReceived messages = last_received_after_first messages"
    by (simp add: getLastReceived_def getLastReceived_from_take last_received_after_first_def)
  have "(\<forall>e \<in> set (tl messages). entry_status e \<noteq> Some ''received'')
        \<Longrightarrow> last_received_after_first messages = Null"
    by (simp add: last_received_after_first_def last_received_def filter_empty_conv)
  with eq show ?thesis by simp
qed

text \<open>
  A received message at the first position is not found; at the second position it is.
\<close>

theorem getLastReceived_skips_first_witness:
  "getLastReceived [Msg received_message, Msg (regular_message (Some ''b'') 300 bob)] = Null
   \<and> getLastReceived [Msg (regular_message (Some ''b'') 300 bob), Msg received_message, DateMarker 5]
       = Id (Some ''r'')"
  using getLastReceived_skips_first
    [of "[Msg received_message, Msg (regular_message (Some ''b'') 300 bob)]"]
    getLastReceived_skips_first
    [of "[Msg (regular_message (Some ''b'') 300 bob), Msg received_message, DateMarker 5]"]
  by (simp add: last_received_after_first_def last_received_def received_message_def
      regular_message_def)

end
